theory Spec2Isabelle
  imports Main
begin

section \<open>The stopwatch component of \<^verbatim>\<open>src/components/Stopwatch.tsx\<close>\<close>

text \<open>
  The component keeps three pieces of React state (\<^verbatim>\<open>time\<close>, \<^verbatim>\<open>isRunning\<close>,
  \<^verbatim>\<open>lapTimes\<close>) and one ref (\<^verbatim>\<open>intervalRef\<close>) holding the handle of the interval
  it registered last. The embedding passes that state explicitly, together with the
  part of the host environment the handlers act on: the table of active intervals.

  A JavaScript number is an IEEE 754 double. Every number the component holds is
  integer-valued, and such a number is modelled by the integer it denotes (\<open>int\<close>).
  The arithmetic of \<^verbatim>\<open>formatTime\<close> follows the doubles: a quotient is rounded to 53
  significant bits before \<^verbatim>\<open>Math.floor\<close> sees it, and \<^verbatim>\<open>toString\<close> prints the shortest
  decimal that reads back as the same double, in exponent notation from \<open>10 ^ 21\<close> on.
  The sum \<^verbatim>\<open>prevTime + 10\<close> of the interval callback is exact below \<open>2 ^ 53\<close>, a time
  that takes about \<open>9 * 10 ^ 14\<close> firings to reach, and is modelled as the exact sum.
\<close>

subsection \<open>Number formatting primitives\<close>

text \<open>\<^verbatim>\<open>a % b\<close>: the remainder takes the sign of the dividend.\<close>

definition js_rem :: "int \<Rightarrow> int \<Rightarrow> int" where
  "js_rem a b = sgn a * (\<bar>a\<bar> mod \<bar>b\<bar>)"

text \<open>
  Rounding to the nearest double. \<open>rne n d\<close> is the integer nearest to \<open>n / d\<close>, the even
  one of the two when \<open>n / d\<close> lies half way between them. A double has 53 significant
  bits: for \<open>0 \<le> n\<close> and \<open>0 < d\<close> the quotient \<open>n / d\<close> is scaled by the power of two that
  brings it into \<open>[2 ^ 52, 2 ^ 53)\<close>, rounded there with \<open>rne\<close>, and scaled back.
  \<open>up_shift n d\<close> is the least \<open>j\<close> with \<open>2 ^ 52 \<le> n * 2 ^ j / d\<close>, for a quotient below
  \<open>2 ^ 52\<close>, and \<open>down_shift n d\<close> is the least \<open>e\<close> with \<open>n / (d * 2 ^ e) < 2 ^ 53\<close>, for
  a quotient from \<open>2 ^ 53\<close> on. \<open>double_quot n d\<close> is the double nearest to \<open>n / d\<close>, given as
  a pair \<open>(m, j)\<close> that stands for \<open>m / 2 ^ j\<close>. (The quotients of \<^verbatim>\<open>formatTime\<close> are far
  from the subnormal range and from overflow.)
\<close>

definition rne :: "int \<Rightarrow> int \<Rightarrow> int" where
  "rne n d =
     (let q = n div d; r = n mod d
      in if 2 * r < d then q
         else if d < 2 * r then q + 1
         else if even q then q else q + 1)"

function up_shift :: "int \<Rightarrow> int \<Rightarrow> nat" where
  "up_shift n d = (if 0 < n \<and> n < 2 ^ 52 * d then Suc (up_shift (2 * n) d) else 0)"
  by pat_completeness auto
termination
  by (relation "measure (\<lambda>(n, d). nat (2 ^ 52 * d - n))") auto

function down_shift :: "int \<Rightarrow> int \<Rightarrow> nat" where
  "down_shift n d = (if 0 < d \<and> 2 ^ 53 * d \<le> n then Suc (down_shift n (2 * d)) else 0)"
  by pat_completeness auto
termination
  by (relation "measure (\<lambda>(n, d). nat (n - d))") auto

declare up_shift.simps [simp del]
declare down_shift.simps [simp del]

definition double_quot :: "int \<Rightarrow> int \<Rightarrow> int \<times> nat" where
  "double_quot n d =
     (if 2 ^ 53 * d \<le> n then
        (let e = down_shift n d in (rne n (d * 2 ^ e) * 2 ^ e, 0))
      else
        (let j = up_shift n d in (rne (n * 2 ^ j) d, j)))"

text \<open>\<^verbatim>\<open>Math.floor\<close> of the double \<open>m / 2 ^ j\<close>.\<close>

definition math_floor :: "int \<times> nat \<Rightarrow> int" where
  "math_floor x = fst x div 2 ^ snd x"

text \<open>\<^verbatim>\<open>Math.floor(a / b)\<close>: the double quotient carries the sign of \<open>a / b\<close> and the
  magnitude of the rounded quotient of the magnitudes. Every divisor in the source is a
  positive constant (60000, 1000 or 10).\<close>

definition floor_div :: "int \<Rightarrow> int \<Rightarrow> int" where
  "floor_div a b =
     (let (m, j) = double_quot \<bar>a\<bar> \<bar>b\<bar> in math_floor (sgn a * sgn b * m, j))"

text \<open>The Number value for a non-negative integer \<open>x\<close>: the double nearest to \<open>x\<close>, which
  is an integer again. \<open>x\<close> is a double when it is its own Number value.\<close>

definition number_value :: "int \<Rightarrow> int" where
  "number_value x = math_floor (double_quot x 1)"

definition digit_char :: "nat \<Rightarrow> char" where
  "digit_char d = ''0123456789'' ! d"

text \<open>The decimal digits of a natural number, most significant first.\<close>

function toString_nat :: "nat \<Rightarrow> string" where
  "toString_nat n =
     (if n < 10 then [digit_char n]
      else toString_nat (n div 10) @ [digit_char (n mod 10)])"
  by pat_completeness auto
termination
  by (relation "measure (\<lambda>n. n)") auto

declare toString_nat.simps [simp del]

text \<open>
  \<^verbatim>\<open>Number.prototype.toString()\<close> on an integer-valued double \<open>v\<close>. ECMAScript picks
  integers \<open>n\<close>, \<open>k\<close> and \<open>s\<close> with \<open>10 ^ (k - 1) \<le> s < 10 ^ k\<close> such that the Number value
  for \<open>s * 10 ^ (n - k)\<close> is \<open>v\<close> and \<open>k\<close> is as small as possible; among several \<open>s\<close> it
  takes the one for which \<open>s * 10 ^ (n - k)\<close> is closest to \<open>v\<close>, and the even one of two
  that are equally close. For \<open>n \<le> 21\<close> the result is the digits of \<open>s\<close> followed by
  \<open>n - k\<close> zeros; for \<open>n > 21\<close> it is the first digit of \<open>s\<close>, a point and the other digits
  if there are any, and \<^verbatim>\<open>e+\<close> with the decimal form of \<open>n - 1\<close>.

  \<open>shortest_from i v\<close> searches \<open>s * 10 ^ (n - k)\<close>: it tries the two multiples of
  \<open>10 ^ i\<close> next to \<open>v\<close>, for \<open>i\<close> counting down, so that the first hit has the fewest
  digits; at \<open>i = 0\<close> the candidate is \<open>v\<close> itself. The search starts one below the number
  of digits of \<open>v\<close>, where \<open>s\<close> has one digit.
\<close>

fun shortest_from :: "nat \<Rightarrow> int \<Rightarrow> int" where
  "shortest_from 0 v = v"
| "shortest_from (Suc i) v =
     (let p = 10 ^ Suc i; lo = v div p * p; hi = lo + p;
          lo_ok = (number_value lo = v); hi_ok = (number_value hi = v)
      in if lo_ok \<and> hi_ok then
           (if v - lo < hi - v then lo
            else if hi - v < v - lo then hi
            else if even (v div p) then lo else hi)
         else if lo_ok then lo
         else if hi_ok then hi
         else shortest_from i v)"

definition strip_zeros :: "string \<Rightarrow> string" where
  "strip_zeros ds = rev (dropWhile (\<lambda>c. c = CHR ''0'') (rev ds))"

definition toString_pos :: "int \<Rightarrow> string" where
  "toString_pos v =
     (let c = shortest_from (length (toString_nat (nat v)) - 1) v;
          ds = toString_nat (nat c)
      in if c < 10 ^ 21 then ds
         else (let e = toString_nat (length ds - 1)
               in case strip_zeros ds of
                    [] \<Rightarrow> []
                  | [d] \<Rightarrow> d # ''e+'' @ e
                  | d # rest \<Rightarrow> d # CHR ''.'' # rest @ ''e+'' @ e))"

definition toString :: "int \<Rightarrow> string" where
  "toString i = (if i < 0 then CHR ''-'' # toString_pos (- i) else toString_pos i)"

text \<open>\<^verbatim>\<open>s.padStart(n, c)\<close> with a one-character pad string: \<open>c\<close> is repeated in front
  of \<open>s\<close> until the length is \<open>n\<close>; a string that is long enough is returned as it is.\<close>

definition padStart :: "nat \<Rightarrow> char \<Rightarrow> string \<Rightarrow> string" where
  "padStart n c s = replicate (n - length s) c @ s"

subsection \<open>\<^verbatim>\<open>formatTime\<close>\<close>

definition formatTime :: "int \<Rightarrow> string" where
  "formatTime totalMilliseconds =
     (let minutes = floor_div totalMilliseconds 60000;
          seconds = floor_div (js_rem totalMilliseconds 60000) 1000;
          milliseconds = floor_div (js_rem totalMilliseconds 1000) 10
      in padStart 2 (CHR ''0'') (toString minutes) @ '':'' @
         padStart 2 (CHR ''0'') (toString seconds) @ '':'' @
         padStart 2 (CHR ''0'') (toString milliseconds))"

subsection \<open>Reading a formatted string back\<close>

definition is_digit :: "char \<Rightarrow> bool" where
  "is_digit c = (c \<in> set ''0123456789'')"

definition digit_value :: "char \<Rightarrow> nat" where
  "digit_value c = (of_char c :: nat) - 48"

text \<open>The value of a string of decimal digits.\<close>

definition parse_dec :: "string \<Rightarrow> nat" where
  "parse_dec s = foldl (\<lambda>acc c. 10 * acc + digit_value c) 0 s"

text \<open>The fields of a string between its colons.\<close>

fun split_colon :: "string \<Rightarrow> string list" where
  "split_colon [] = [[]]"
| "split_colon (c # cs) =
     (if c = CHR '':'' then [] # split_colon cs
      else (case split_colon cs of f # fs \<Rightarrow> (c # f) # fs | [] \<Rightarrow> [[c]]))"

text \<open>A full match of the pattern \<^verbatim>\<open>\d{2,}:\d{2}:\d{2}\<close>: two or more digits, a colon,
  two digits, a colon, two digits, and nothing else.\<close>

definition matches_pattern :: "string \<Rightarrow> bool" where
  "matches_pattern s =
     (case split_colon s of
        [m, sec, h] \<Rightarrow>
          2 \<le> length m \<and> length sec = 2 \<and> length h = 2 \<and>
          list_all is_digit m \<and> list_all is_digit sec \<and> list_all is_digit h
      | _ \<Rightarrow> False)"

subsection \<open>State\<close>

text \<open>The interface \<^verbatim>\<open>LapTime\<close>. Its fields \<^verbatim>\<open>id\<close> and \<^verbatim>\<open>time\<close> are named
  \<open>lap_id\<close> and \<open>lap_time\<close> here: \<open>id\<close> is the identity function of HOL, and
  \<open>time\<close> is the component's own counter.\<close>

record LapTime =
  lap_id :: nat
  lap_time :: string
  totalTime :: int

text \<open>
  The component's state. \<open>time\<close>, \<open>isRunning\<close> and \<open>lapTimes\<close> are the three
  \<^verbatim>\<open>useState\<close> cells and \<open>intervalRef\<close> is \<^verbatim>\<open>intervalRef.current\<close> (\<open>None\<close> for
  \<^verbatim>\<open>null\<close>). The last two fields belong to the host: \<open>intervals\<close> lists the handles
  of the intervals that are registered and not yet cleared, in the order of their
  registration, and \<open>nextHandle\<close> is the handle the next \<^verbatim>\<open>setInterval\<close> returns.
  A handle is a truthy value (a positive integer in a browser, a \<^verbatim>\<open>Timeout\<close> object
  in Node), so the test \<^verbatim>\<open>if (intervalRef.current)\<close> is the test for \<^verbatim>\<open>null\<close>.
\<close>

record Stopwatch =
  time :: int
  isRunning :: bool
  lapTimes :: "LapTime list"
  intervalRef :: "nat option"
  intervals :: "nat list"
  nextHandle :: nat

text \<open>The state at mount: the initial values of the hooks, and no interval registered.\<close>

definition initial :: Stopwatch where
  "initial = \<lparr>time = 0, isRunning = False, lapTimes = [], intervalRef = None,
              intervals = [], nextHandle = 1\<rparr>"

subsection \<open>The host's interval table\<close>

definition setInterval :: "Stopwatch \<Rightarrow> nat \<times> Stopwatch" where
  "setInterval s =
     (nextHandle s, s\<lparr>intervals := intervals s @ [nextHandle s], nextHandle := Suc (nextHandle s)\<rparr>)"

definition clearInterval :: "nat \<Rightarrow> Stopwatch \<Rightarrow> Stopwatch" where
  "clearInterval h s = s\<lparr>intervals := removeAll h (intervals s)\<rparr>"

text \<open>The callback every interval of the component runs:
  \<^verbatim>\<open>setTime(prevTime => prevTime + 10)\<close>.\<close>

definition tick :: "Stopwatch \<Rightarrow> Stopwatch" where
  "tick s = s\<lparr>time := time s + 10\<rparr>"

text \<open>The host fires the interval \<open>h\<close>: its callback runs if the interval is still
  registered, and nothing happens otherwise.\<close>

definition fire :: "nat \<Rightarrow> Stopwatch \<Rightarrow> Stopwatch" where
  "fire h s = (if h \<in> set (intervals s) then tick s else s)"

text \<open>One period of 10 ms: every registered interval fires once.\<close>

definition tick_interval :: "Stopwatch \<Rightarrow> Stopwatch" where
  "tick_interval s = fold fire (intervals s) s"

subsection \<open>The handlers\<close>

definition startStopwatch :: "Stopwatch \<Rightarrow> Stopwatch" where
  "startStopwatch s =
     (let s1 = s\<lparr>isRunning := True\<rparr>;
          (h, s2) = setInterval s1
      in s2\<lparr>intervalRef := Some h\<rparr>)"

definition pauseStopwatch :: "Stopwatch \<Rightarrow> Stopwatch" where
  "pauseStopwatch s =
     (let s1 = s\<lparr>isRunning := False\<rparr>
      in case intervalRef s1 of
           Some h \<Rightarrow> (clearInterval h s1)\<lparr>intervalRef := None\<rparr>
         | None \<Rightarrow> s1)"

definition resetStopwatch :: "Stopwatch \<Rightarrow> Stopwatch" where
  "resetStopwatch s =
     (let s1 = s\<lparr>isRunning := False, time := 0, lapTimes := []\<rparr>
      in case intervalRef s1 of
           Some h \<Rightarrow> (clearInterval h s1)\<lparr>intervalRef := None\<rparr>
         | None \<Rightarrow> s1)"

text \<open>
  \<^verbatim>\<open>recordLap\<close> and \<^verbatim>\<open>handleStartPause\<close> are closures over values of the render that
  created them (\<^verbatim>\<open>time\<close> and \<^verbatim>\<open>lapTimes.length\<close>; \<^verbatim>\<open>isRunning\<close>), and they are
  rebuilt whenever those values change. \<open>recordLap_of t n\<close> is the callback built by a
  render that saw the time \<open>t\<close> and \<open>n\<close> laps; it prepends to the list that is current
  when the update is applied (\<^verbatim>\<open>prevLaps => [newLap, ...prevLaps]\<close>). The handlers
  \<open>recordLap\<close> and \<open>handleStartPause\<close> are the callbacks of the render of the state
  they are invoked on: React has rendered each update before the next event arrives.
\<close>

definition recordLap_of :: "int \<Rightarrow> nat \<Rightarrow> Stopwatch \<Rightarrow> Stopwatch" where
  "recordLap_of t n s =
     (if t > 0 then
        (let newLap = \<lparr>lap_id = n + 1, lap_time = formatTime t, totalTime = t\<rparr>
         in s\<lparr>lapTimes := newLap # lapTimes s\<rparr>)
      else s)"

definition recordLap :: "Stopwatch \<Rightarrow> Stopwatch" where
  "recordLap s = recordLap_of (time s) (length (lapTimes s)) s"

definition handleStartPause_of :: "bool \<Rightarrow> Stopwatch \<Rightarrow> Stopwatch" where
  "handleStartPause_of running s = (if running then pauseStopwatch s else startStopwatch s)"

definition handleStartPause :: "Stopwatch \<Rightarrow> Stopwatch" where
  "handleStartPause s = handleStartPause_of (isRunning s) s"

text \<open>The cleanup of the effect, run when the component unmounts: it clears the
  interval the ref holds and leaves the ref as it is.\<close>

definition unmount :: "Stopwatch \<Rightarrow> Stopwatch" where
  "unmount s = (case intervalRef s of Some h \<Rightarrow> clearInterval h s | None \<Rightarrow> s)"

text \<open>The time display of the rendered component: \<^verbatim>\<open>{formatTime(time)}\<close>.\<close>

definition display :: "Stopwatch \<Rightarrow> string" where
  "display s = formatTime (time s)"

subsection \<open>Runs\<close>

text \<open>The operations of the stopwatch as events. \<open>Tick h\<close> is the host firing the
  interval \<open>h\<close>.\<close>

datatype event = Start | Pause | Toggle | Tick nat | RecordLap | Reset

fun step :: "event \<Rightarrow> Stopwatch \<Rightarrow> Stopwatch" where
  "step Start s = startStopwatch s"
| "step Pause s = pauseStopwatch s"
| "step Toggle s = handleStartPause s"
| "step (Tick h) s = fire h s"
| "step RecordLap s = recordLap s"
| "step Reset s = resetStopwatch s"

fun run :: "event list \<Rightarrow> Stopwatch \<Rightarrow> Stopwatch" where
  "run [] s = s"
| "run (e # es) s = run es (step e s)"

text \<open>Every registered interval is the one whose handle the ref holds.\<close>

definition sole_timer :: "Stopwatch \<Rightarrow> bool" where
  "sole_timer s = (\<forall>h \<in> set (intervals s). intervalRef s = Some h)"

text \<open>The stopwatch owns exactly one interval while it runs and none while it does not,
  and the ref holds the handle of that interval.\<close>

definition one_ticker :: "Stopwatch \<Rightarrow> bool" where
  "one_ticker s =
     (intervals s = (case intervalRef s of Some h \<Rightarrow> [h] | None \<Rightarrow> []) \<and>
      isRunning s = (intervalRef s \<noteq> None))"

text \<open>The sequence numbers of \<open>n\<close> laps read newest first: \<open>n, \<dots>, 1\<close>.\<close>

definition countdown :: "nat \<Rightarrow> nat list" where
  "countdown n = rev [1..<Suc n]"

text \<open>Every stored lap shows the formatted form of the time it was captured at.\<close>

definition laps_consistent :: "Stopwatch \<Rightarrow> bool" where
  "laps_consistent s = list_all (\<lambda>l. lap_time l = formatTime (totalTime l)) (lapTimes s)"

section \<open>Double arithmetic on safe integers\<close>

text \<open>Below \<open>2 ^ 53\<close> the rounded quotient has the floor of the exact one, and
  \<^verbatim>\<open>toString\<close> prints every digit.\<close>

lemma up_shift_bound: "0 < n \<Longrightarrow> 2 ^ 52 * d \<le> n * 2 ^ up_shift n d"
proof (induction n d rule: up_shift.induct)
  case (1 n d)
  show ?case
  proof (cases "n < 2 ^ 52 * d")
    case True
    with 1 have "2 ^ 52 * d \<le> (2 * n) * 2 ^ up_shift (2 * n) d"
      by simp
    with True 1(2) show ?thesis
      by (subst up_shift.simps) (simp add: mult.assoc)
  next
    case False
    then show ?thesis
      by (subst up_shift.simps) simp
  qed
qed

lemma down_shift_bound:
  "0 < d \<Longrightarrow> 2 ^ 53 * d \<le> n \<Longrightarrow>
     0 < down_shift n d \<and> 2 ^ 52 * d * 2 ^ down_shift n d \<le> n"
proof (induction n d rule: down_shift.induct)
  case (1 n d)
  show ?case
  proof (cases "2 ^ 53 * (2 * d) \<le> n")
    case True
    with 1 have "2 ^ 52 * (2 * d) * 2 ^ down_shift n (2 * d) \<le> n"
      by simp
    with 1(2,3) show ?thesis
      by (subst (1 2) down_shift.simps) (simp add: mult.assoc)
  next
    case False
    then have "down_shift n (2 * d) = 0"
      by (subst down_shift.simps) simp
    with 1(2,3) show ?thesis
      by (subst (1 2) down_shift.simps) simp
  qed
qed

lemma rne_ge: "n div d \<le> rne n d"
  by (simp add: rne_def Let_def)

lemma rne_le: "rne n d \<le> n div d + 1"
  by (simp add: rne_def Let_def)

lemma rne_up: "rne n d \<noteq> n div d \<Longrightarrow> d \<le> 2 * (n mod d)"
  by (simp add: rne_def Let_def split: if_splits)

lemma rne_one: "rne n 1 = n"
  by (simp add: rne_def)


lemma div_between:
  fixes m n K :: int
  assumes "n * K \<le> m" and "m < (n + 1) * K"
  shows "m div K = n"
proof -
  have "m = K * n + (m - n * K)"
    by (simp add: mult.commute)
  moreover have "0 \<le> m - n * K"
    using assms(1) by simp
  moreover have "m - n * K < K"
    using assms(2) by (simp add: algebra_simps)
  ultimately show ?thesis
    by (rule int_div_pos_eq)
qed

lemma rne_scaled_div:
  fixes a b K :: int
  assumes b: "0 < b" and K: "0 < K" and a: "0 \<le> a" and bK: "b < 2 * K"
  shows "rne (a * K) b div K = a div b"
proof -
  define n where "n = a div b"
  define q where "q = (a * K) div b"
  define r where "r = (a * K) mod b"
  have N: "a * K = q * b + r"
    by (simp add: q_def r_def)
  have r: "0 \<le> r" "r < b"
    using b by (simp_all add: r_def)
  have a_eq: "a = n * b + a mod b"
    by (simp add: n_def)
  have a_mod: "0 \<le> a mod b" "a mod b < b"
    using b by simp_all
  have "n * b \<le> a"
    using a_eq a_mod(1) by linarith
  then have nbK: "n * b * K \<le> a * K"
    using K by (simp add: mult_right_mono)
  have "(n * K) * b = n * b * K"
    by (simp add: ac_simps)
  also note nbK
  also note N
  finally have "(n * K) * b \<le> q * b + r" .
  with r b have "(n * K) * b < (q + 1) * b"
    by (simp add: algebra_simps)
  with b have lower: "n * K \<le> q"
    by (simp add: mult_less_cancel_right)
  have "a < n * b + b"
    using a_eq a_mod(2) by linarith
  then have "a < (n + 1) * b"
    by (simp add: algebra_simps)
  then have "a + 1 \<le> (n + 1) * b"
    by simp
  then have a1K: "(a + 1) * K \<le> (n + 1) * b * K"
    using K by (simp add: mult_right_mono)
  have "q * b + r + K = a * K + K"
    by (simp only: N)
  also have "\<dots> = (a + 1) * K"
    by (simp add: algebra_simps)
  also note a1K
  also have "(n + 1) * b * K = (n + 1) * K * b"
    by (simp add: ac_simps)
  finally have up: "q * b + r + K \<le> (n + 1) * K * b" .
  have upper: "rne (a * K) b < (n + 1) * K"
  proof (cases "rne (a * K) b = q")
    case True
    from up r K have "q * b < (n + 1) * K * b"
      by linarith
    with b have "q < (n + 1) * K"
      by (simp add: mult_less_cancel_right)
    with True show ?thesis by simp
  next
    case False
    then have "b \<le> 2 * r"
      using rne_up [of "a * K" b] by (simp add: q_def r_def)
    with up bK have "(2 * q + 1) * b + b < (2 * ((n + 1) * K)) * b"
      by (simp add: algebra_simps)
    then have "(2 * q + 2) * b < (2 * ((n + 1) * K)) * b"
      by (simp add: algebra_simps)
    with b have "2 * q + 2 < 2 * ((n + 1) * K)"
      by (simp only: mult_less_cancel_right)
    then have "q + 1 < (n + 1) * K"
      by simp
    with rne_le [of "a * K" b] show ?thesis
      by (simp add: q_def)
  qed
  have "n * K \<le> rne (a * K) b"
    using lower rne_ge [of "a * K" b] by (simp add: q_def)
  with upper show ?thesis
    unfolding n_def [symmetric] by (intro div_between) 
qed

lemma floor_div_safe:
  assumes "0 \<le> a" and "a < 2 ^ 53" and "0 < b"
  shows "floor_div a b = a div b"
proof (cases "a = 0")
  case True
  have "up_shift 0 b = 0"
    by (subst up_shift.simps) simp
  with True assms(3) show ?thesis
    by (simp add: floor_div_def double_quot_def math_floor_def rne_def)
next
  case False
  with assms(1) have a: "0 < a"
    by simp
  define K :: int where "K = 2 ^ up_shift a b"
  have K: "0 < K"
    by (simp add: K_def)
  have low: "2 ^ 52 * b \<le> a * K"
    unfolding K_def using a by (rule up_shift_bound)
  have low': "4503599627370496 * b \<le> a * K"
    using low by simp
  have step: "a * K \<le> 9007199254740991 * K"
    using assms(2) K by (intro mult_right_mono) simp_all
  from low' step K have bK: "b < 2 * K"
    by linarith
  have big: "\<not> 2 ^ 53 * b \<le> a"
    using assms(2,3) by simp
  have "floor_div a b = rne (a * K) b div K"
    using a assms(3) big
    by (simp add: floor_div_def double_quot_def math_floor_def K_def Let_def)
  also have "\<dots> = a div b"
    using assms(3) K assms(1) bK by (rule rne_scaled_div)
  finally show ?thesis .
qed

lemma double_quot_zero: "double_quot 0 1 = (0, 0)"
proof -
  have "up_shift 0 1 = 0"
    by (subst up_shift.simps) simp
  then show ?thesis
    by (simp add: double_quot_def rne_def)
qed

lemma number_value_safe:
  assumes "0 \<le> x" and "x < 2 ^ 53"
  shows "number_value x = x"
proof (cases "x = 0")
  case True
  then show ?thesis
    by (simp add: number_value_def double_quot_zero math_floor_def)
next
  case False
  with assms(1) have "number_value x = floor_div x 1"
    by (simp add: number_value_def floor_div_def split: prod.splits)
  with floor_div_safe [OF assms, of 1] show ?thesis
    by simp
qed

lemma number_value_large:
  assumes "2 ^ 53 \<le> x"
  shows "2 ^ 53 \<le> number_value x"
proof -
  define e where "e = down_shift x 1"
  have e: "0 < e" "2 ^ 52 * 2 ^ e \<le> x"
    using down_shift_bound [of 1 x] assms by (simp_all add: e_def)
  have nv: "number_value x = rne x (2 ^ e) * 2 ^ e"
    using assms by (simp add: number_value_def double_quot_def math_floor_def e_def Let_def)
  have "(2 ^ 52 * 2 ^ e) div 2 ^ e \<le> x div (2 ^ e :: int)"
    using e(2) by (intro zdiv_mono1) simp_all
  then have "(2 ^ 52 :: int) \<le> x div 2 ^ e"
    by simp
  also have "\<dots> \<le> rne x (2 ^ e)"
    by (rule rne_ge)
  finally have "2 ^ 52 * 2 ^ e \<le> rne x (2 ^ e) * (2 ^ e :: int)"
    by (intro mult_right_mono) simp_all
  moreover have "(2 ^ 53 :: int) \<le> 2 ^ 52 * 2 ^ e"
    using e(1) by (cases e) simp_all
  ultimately show ?thesis
    by (simp only: nv)
qed

lemma number_value_eq_safe:
  assumes "0 \<le> x" and "v < 2 ^ 53" and "number_value x = v"
  shows "x = v"
proof (cases "x < 2 ^ 53")
  case True
  with assms(1,3) show ?thesis
    by (simp add: number_value_safe)
next
  case False
  then have "2 ^ 53 \<le> number_value x"
    by (intro number_value_large) simp
  with assms(2,3) show ?thesis
    by simp
qed

lemma shortest_from_safe:
  assumes "0 \<le> v" and "v < 2 ^ 53"
  shows "shortest_from i v = v"
proof (induction i)
  case 0
  show ?case by simp
next
  case (Suc i)
  define p :: int where "p = 10 ^ Suc i"
  have p: "0 < p"
    by (simp add: p_def)
  have lo: "0 \<le> v div p * p"
    using assms(1) p by (simp add: pos_imp_zdiv_nonneg_iff)
  have l: "v div p * p = v" if "number_value (v div p * p) = v"
    using lo assms(2) that by (rule number_value_eq_safe)
  have h: "v div p * p + p = v" if "number_value (v div p * p + p) = v"
    using _ assms(2) that by (rule number_value_eq_safe) (use lo p in simp)
  show ?case
    using Suc l h unfolding shortest_from.simps p_def [symmetric] Let_def
    by (auto split: if_splits)
qed

lemma toString_safe:
  assumes "0 \<le> v" and "v < 2 ^ 53"
  shows "toString v = toString_nat (nat v)"
  using assms by (simp add: toString_def toString_pos_def shortest_from_safe Let_def)

section \<open>The formatter\<close>

subsection \<open>Digits, padding and fields\<close>

lemma lt10: "(d::nat) < 10 \<Longrightarrow> d = 0 \<or> d = 1 \<or> d = 2 \<or> d = 3 \<or> d = 4 \<or> d = 5 \<or> d = 6 \<or> d = 7 \<or> d = 8 \<or> d = 9"
  by arith

lemma digit_char_is_digit: "d < 10 \<Longrightarrow> is_digit (digit_char d)"
  by (drule lt10) (auto simp: is_digit_def digit_char_def)

lemma digit_value_digit_char: "d < 10 \<Longrightarrow> digit_value (digit_char d) = d"
  by (drule lt10) (auto simp: digit_value_def digit_char_def)

lemma toString_nat_digits: "list_all is_digit (toString_nat n)"
proof (induction n rule: toString_nat.induct)
  case (1 n)
  show ?case
  proof (cases "n < 10")
    case True
    then show ?thesis by (subst toString_nat.simps) (simp add: digit_char_is_digit)
  next
    case False
    with 1 show ?thesis by (subst toString_nat.simps) (simp add: digit_char_is_digit)
  qed
qed

lemma parse_dec_snoc: "parse_dec (s @ [c]) = 10 * parse_dec s + digit_value c"
  by (simp add: parse_dec_def)

lemma parse_dec_toString_nat: "parse_dec (toString_nat n) = n"
proof (induction n rule: toString_nat.induct)
  case (1 n)
  show ?case
  proof (cases "n < 10")
    case True
    then show ?thesis
      by (subst toString_nat.simps) (simp add: parse_dec_def digit_value_digit_char)
  next
    case False
    with 1 show ?thesis
      by (subst toString_nat.simps) (simp add: parse_dec_snoc digit_value_digit_char)
  qed
qed

lemma length_toString_nat_pos: "0 < length (toString_nat n)"
  by (subst toString_nat.simps) simp

lemma length_toString_nat_small: "n < 100 \<Longrightarrow> length (toString_nat n) \<le> 2"
proof -
  assume n: "n < 100"
  have one: "length (toString_nat m) = 1" if "m < 10" for m
    using that by (subst toString_nat.simps) simp
  show ?thesis
  proof (cases "n < 10")
    case True
    then show ?thesis by (simp add: one)
  next
    case False
    from n have "n div 10 < 10" by simp
    with False show ?thesis by (subst toString_nat.simps) (simp add: one)
  qed
qed

lemma parse_dec_zeros: "parse_dec (replicate k (CHR ''0'') @ s) = parse_dec s"
proof -
  have "foldl (\<lambda>acc c. 10 * acc + digit_value c) 0 (replicate k (CHR ''0'')) = 0"
    by (induction k) (simp_all add: digit_value_def)
  then show ?thesis by (simp add: parse_dec_def)
qed

lemma colon_no_digit: "\<not> is_digit (CHR '':'')"
  by (simp add: is_digit_def)

lemma colon_not_digit: "list_all is_digit s \<Longrightarrow> CHR '':'' \<notin> set s"
  using colon_no_digit by (induction s) auto

lemma split_colon_field: "CHR '':'' \<notin> set a \<Longrightarrow> split_colon a = [a]"
  by (induction a) auto

lemma split_colon_append:
  "CHR '':'' \<notin> set a \<Longrightarrow> split_colon (a @ CHR '':'' # b) = a # split_colon b"
  by (induction a) auto

lemma js_rem_nonneg: "0 \<le> a \<Longrightarrow> 0 < b \<Longrightarrow> js_rem a b = a mod b"
  by (cases "a = 0") (simp_all add: js_rem_def)

lemma is_digit_zero: "is_digit (CHR ''0'')"
  by (simp add: is_digit_def)

lemma padStart_digits: "list_all is_digit s \<Longrightarrow> list_all is_digit (padStart n (CHR ''0'') s)"
  by (simp add: padStart_def is_digit_zero list_all_length nth_append)

lemma length_padStart: "length (padStart n c s) = max n (length s)"
  by (simp add: padStart_def)

lemma formatTime_fields:
  assumes "0 \<le> t" and "t < 2 ^ 53"
  shows "formatTime t =
    padStart 2 (CHR ''0'') (toString_nat (nat (t div 60000))) @ CHR '':'' #
    padStart 2 (CHR ''0'') (toString_nat (nat (t mod 60000 div 1000))) @ CHR '':'' #
    padStart 2 (CHR ''0'') (toString_nat (nat (t mod 1000 div 10)))"
proof -
  have m: "floor_div t 60000 = t div 60000"
    using assms by (intro floor_div_safe) simp_all
  have s: "floor_div (js_rem t 60000) 1000 = t mod 60000 div 1000"
    using assms(1) by (simp add: js_rem_nonneg floor_div_safe)
  have h: "floor_div (js_rem t 1000) 10 = t mod 1000 div 10"
    using assms(1) by (simp add: js_rem_nonneg floor_div_safe)
  have tm: "toString (t div 60000) = toString_nat (nat (t div 60000))"
    using assms by (intro toString_safe) (simp_all add: pos_imp_zdiv_nonneg_iff)
  have ts: "toString (t mod 60000 div 1000) = toString_nat (nat (t mod 60000 div 1000))"
    by (intro toString_safe) (simp_all add: pos_imp_zdiv_nonneg_iff)
  have th: "toString (t mod 1000 div 10) = toString_nat (nat (t mod 1000 div 10))"
    by (intro toString_safe) (simp_all add: pos_imp_zdiv_nonneg_iff)
  show ?thesis
    by (simp add: formatTime_def m s h tm ts th)
qed

lemma field_minutes:
  "list_all is_digit (padStart 2 (CHR ''0'') (toString_nat n)) \<and>
   2 \<le> length (padStart 2 (CHR ''0'') (toString_nat n)) \<and>
   parse_dec (padStart 2 (CHR ''0'') (toString_nat n)) = n"
proof -
  have "parse_dec (padStart 2 (CHR ''0'') (toString_nat n)) = n"
    by (simp add: padStart_def parse_dec_zeros parse_dec_toString_nat)
  then show ?thesis
    by (simp add: padStart_digits toString_nat_digits length_padStart)
qed

lemma field_two_digits:
  assumes "n < 100"
  shows "length (padStart 2 (CHR ''0'') (toString_nat n)) = 2"
  using length_toString_nat_small [OF assms] by (simp add: length_padStart)

lemma formatTime_split:
  assumes "0 \<le> t" and "t < 2 ^ 53"
  shows "split_colon (formatTime t) =
    [padStart 2 (CHR ''0'') (toString_nat (nat (t div 60000))),
     padStart 2 (CHR ''0'') (toString_nat (nat (t mod 60000 div 1000))),
     padStart 2 (CHR ''0'') (toString_nat (nat (t mod 1000 div 10)))]"
proof -
  have no_colon: "CHR '':'' \<notin> set (padStart 2 (CHR ''0'') (toString_nat n))" for n
    by (rule colon_not_digit) (simp add: field_minutes)
  show ?thesis
    by (simp only: formatTime_fields [OF assms] split_colon_append [OF no_colon]
        split_colon_field [OF no_colon])
qed

lemma formatTime_zero: "formatTime 0 = ''00:00:00''"
  by (simp add: formatTime_fields padStart_def toString_nat.simps digit_char_def)

lemma formatTime_61010: "formatTime 61010 = ''01:01:01''"
  by (simp add: formatTime_fields padStart_def toString_nat.simps digit_char_def)

subsection \<open>Beyond the safe integers\<close>

text \<open>The double nearest to \<open>6 * 10 ^ 25\<close> is 60000000000000001140850688. Its quotient by
  60000 rounds to \<open>10 ^ 21\<close>, which \<^verbatim>\<open>toString\<close> prints in exponent notation.\<close>

lemma shortest_from_exact:
  assumes "number_value v = v" and "v mod 10 ^ Suc i = 0"
  shows "shortest_from (Suc i) v = v"
proof -
  have "v div 10 ^ Suc i * 10 ^ Suc i = v"
    using assms(2) by (simp add: mod_eq_0_iff_dvd)
  with assms(1) show ?thesis
    unfolding shortest_from.simps Let_def by simp
qed

lemma digits_1e21:
  "toString_nat (nat 1000000000000000000000) = ''1000000000000000000000''"
  by (simp add: toString_nat.simps digit_char_def)

lemma toString_1e21: "toString 1000000000000000000000 = ''1e+21''"
proof -
  have nv: "number_value 1000000000000000000000 = 1000000000000000000000"
    by code_simp
  have sf: "shortest_from (Suc 20) 1000000000000000000000 = 1000000000000000000000"
    using nv by (rule shortest_from_exact) simp
  have len: "length ''1000000000000000000000'' - 1 = Suc 20"
    by simp
  have e: "toString_nat 21 = ''21''"
    by (simp add: toString_nat.simps digit_char_def)
  have "toString_pos 1000000000000000000000 = ''1e+21''"
    unfolding toString_pos_def digits_1e21 len sf Let_def
    by (simp add: strip_zeros_def e)
  then show ?thesis
    by (simp add: toString_def)
qed

lemma formatTime_6e25: "formatTime 60000000000000001140850688 = ''1e+21:10:68''"
proof -
  have m: "floor_div 60000000000000001140850688 60000 = 1000000000000000000000"
    by code_simp
  have s: "js_rem 60000000000000001140850688 60000 = 10688"
    by (simp add: js_rem_def)
  have h: "js_rem 60000000000000001140850688 1000 = 688"
    by (simp add: js_rem_def)
  have t10: "toString 10 = ''10''" and t68: "toString 68 = ''68''"
    by (simp_all add: toString_safe toString_nat.simps digit_char_def)
  show ?thesis
    by (simp add: formatTime_def m s h floor_div_safe toString_1e21 t10 t68 padStart_def)
qed

lemma not_pattern_6e25: "\<not> matches_pattern ''1e+21:10:68''"
  by (simp add: matches_pattern_def is_digit_def)

subsection \<open>C3: the shape and the fields of a formatted time\<close>

text \<open>
  As stated, C3 speaks of every non-negative integer \<open>t\<close>. The number
  60000000000000001140850688 is a non-negative integer and a double, and \<open>formatTime\<close>
  gives \<^verbatim>\<open>1e+21:10:68\<close> for it, which does not match \<^verbatim>\<open>\d{2,}:\d{2}:\d{2}\<close>.
\<close>

theorem formatTime_exponent_minutes:
  "(0::int) \<le> 60000000000000001140850688 \<and>
   number_value 60000000000000001140850688 = 60000000000000001140850688 \<and>
   formatTime 60000000000000001140850688 = ''1e+21:10:68'' \<and>
   \<not> matches_pattern (formatTime 60000000000000001140850688)"
proof -
  have "number_value 60000000000000001140850688 = 60000000000000001140850688"
    by code_simp
  then show ?thesis
    by (simp add: formatTime_6e25 not_pattern_6e25)
qed

text \<open>
  Claim C3, amended. For every safe non-negative integer \<open>t\<close>, that is \<open>0 \<le> t < 2 ^ 53\<close>,
  \<open>formatTime t\<close> matches \<^verbatim>\<open>\d{2,}:\d{2}:\d{2}\<close>. Its three fields between the colons are
  the decimal forms of \<open>t div 60000\<close>, \<open>t mod 60000 div 1000\<close> and \<open>t mod 1000 div 10\<close>, each
  padded with zeros in front to two digits at least, and read back as numbers they give
  these three values. In particular \<open>formatTime 0\<close> is \<^verbatim>\<open>00:00:00\<close> and
  \<open>formatTime 61010\<close> is \<^verbatim>\<open>01:01:01\<close>.
\<close>

theorem formatTime_pattern_and_fields:
  assumes "0 \<le> t" and "t < 2 ^ 53"
  shows "matches_pattern (formatTime t) \<and>
    split_colon (formatTime t) =
      [padStart 2 (CHR ''0'') (toString_nat (nat (t div 60000))),
       padStart 2 (CHR ''0'') (toString_nat (nat (t mod 60000 div 1000))),
       padStart 2 (CHR ''0'') (toString_nat (nat (t mod 1000 div 10)))] \<and>
    map parse_dec (split_colon (formatTime t)) =
      [nat (t div 60000), nat (t mod 60000 div 1000), nat (t mod 1000 div 10)] \<and>
    formatTime 0 = ''00:00:00'' \<and> formatTime 61010 = ''01:01:01''"
proof -
  have sec: "nat (t mod 60000 div 1000) < 100"
    using assms(1) by simp
  have hun: "nat (t mod 1000 div 10) < 100"
    using assms(1) by simp
  have "matches_pattern (formatTime t)"
    by (simp add: matches_pattern_def formatTime_split [OF assms] field_minutes
        field_two_digits [OF sec] field_two_digits [OF hun])
  moreover have "map parse_dec (split_colon (formatTime t)) =
      [nat (t div 60000), nat (t mod 60000 div 1000), nat (t mod 1000 div 10)]"
    by (simp add: formatTime_split [OF assms] field_minutes)
  ultimately show ?thesis
    by (simp add: formatTime_split [OF assms] formatTime_zero formatTime_61010)
qed

theorem formatTime_pattern_and_fields_witness:
  "(0::int) \<le> 754321 \<and> (754321::int) < 2 ^ 53 \<and>
   matches_pattern (formatTime 754321) \<and>
   map parse_dec (split_colon (formatTime 754321)) = [12, 34, 32] \<and>
   formatTime 754321 = ''12:34:32'' \<and>
   (0::int) \<le> 9007199254740991 \<and> (9007199254740991::int) < 2 ^ 53 \<and>
   matches_pattern (formatTime 9007199254740991) \<and>
   map parse_dec (split_colon (formatTime 9007199254740991)) = [150119987579, 0, 99] \<and>
   formatTime 9007199254740991 = ''150119987579:00:99''"
proof -
  have h: "(0::int) \<le> 754321" and b: "(754321::int) < 2 ^ 53"
    by simp_all
  have m: "matches_pattern (formatTime 754321)"
    using formatTime_pattern_and_fields [OF h b] by (rule conjunct1)
  have "map parse_dec (split_colon (formatTime 754321)) =
      [nat (754321 div 60000), nat (754321 mod 60000 div 1000), nat (754321 mod 1000 div 10)]"
    using formatTime_pattern_and_fields [OF h b] by blast
  then have p: "map parse_dec (split_colon (formatTime 754321)) = [12, 34, 32]"
    by simp
  have f: "formatTime 754321 = ''12:34:32''"
    by (simp add: formatTime_fields padStart_def toString_nat.simps digit_char_def)
  have h': "(0::int) \<le> 9007199254740991" and b': "(9007199254740991::int) < 2 ^ 53"
    by simp_all
  have m': "matches_pattern (formatTime 9007199254740991)"
    using formatTime_pattern_and_fields [OF h' b'] by (rule conjunct1)
  have "map parse_dec (split_colon (formatTime 9007199254740991)) =
      [nat (9007199254740991 div 60000), nat (9007199254740991 mod 60000 div 1000),
       nat (9007199254740991 mod 1000 div 10)]"
    using formatTime_pattern_and_fields [OF h' b'] by blast
  then have p': "map parse_dec (split_colon (formatTime 9007199254740991)) =
      [150119987579, 0, 99]"
    by simp
  have f': "formatTime 9007199254740991 = ''150119987579:00:99''"
    by (simp add: formatTime_fields padStart_def toString_nat.simps digit_char_def)
  from h b m p f h' b' m' p' f' show ?thesis
    by blast
qed

section \<open>The state machine\<close>

subsection \<open>Runs and what a step changes\<close>

lemmas handler_defs =
  startStopwatch_def pauseStopwatch_def resetStopwatch_def recordLap_def recordLap_of_def
  handleStartPause_def handleStartPause_of_def unmount_def setInterval_def clearInterval_def
  fire_def tick_def

lemma run_append: "run (xs @ ys) s = run ys (run xs s)"
  by (induction xs arbitrary: s) simp_all

lemma run_snoc: "run (xs @ [e]) s = step e (run xs s)"
  by (simp add: run_append)

lemma lapTimes_step:
  "lapTimes (step e s) =
     (if e = Reset then []
      else if e = RecordLap \<and> 0 < time s then
        \<lparr>lap_id = length (lapTimes s) + 1, lap_time = formatTime (time s),
         totalTime = time s\<rparr> # lapTimes s
      else lapTimes s)"
  by (cases e) (simp_all add: handler_defs Let_def split: option.splits)

lemma time_step:
  "time (step e s) =
     (case e of Reset \<Rightarrow> 0
      | Tick h \<Rightarrow> (if h \<in> set (intervals s) then time s + 10 else time s)
      | _ \<Rightarrow> time s)"
  by (cases e) (simp_all add: handler_defs Let_def split: option.splits)

subsection \<open>One interval per running stopwatch\<close>

text \<open>
  \<open>startStopwatch\<close> is called by \<open>handleStartPause\<close> only, and only when the stopwatch
  is not running. Along every run that starts the stopwatch through \<open>handleStartPause\<close>
  the interval table therefore holds the interval of the ref and no other.
\<close>

lemma one_ticker_initial: "one_ticker initial"
  by (simp add: one_ticker_def initial_def)

lemma one_ticker_step:
  assumes "one_ticker s" and "e \<noteq> Start"
  shows "one_ticker (step e s)"
proof (cases e)
  case Start
  with assms show ?thesis by simp
next
  case Pause
  with assms show ?thesis
    by (auto simp: one_ticker_def pauseStopwatch_def clearInterval_def split: option.splits)
next
  case Toggle
  with assms show ?thesis
    by (auto simp: one_ticker_def handler_defs Let_def split: option.splits)
next
  case (Tick h)
  with assms show ?thesis
    by (simp add: one_ticker_def fire_def tick_def)
next
  case RecordLap
  with assms show ?thesis
    by (simp add: one_ticker_def recordLap_def recordLap_of_def Let_def)
next
  case Reset
  with assms show ?thesis
    by (auto simp: one_ticker_def resetStopwatch_def clearInterval_def split: option.splits)
qed

lemma one_ticker_run:
  assumes "Start \<notin> set evs"
  shows "one_ticker (run evs initial)"
  using assms
proof (induction evs rule: rev_induct)
  case Nil
  show ?case by (simp add: one_ticker_initial)
next
  case (snoc e evs)
  then have "one_ticker (run evs initial)" and "e \<noteq> Start"
    by auto
  then show ?case by (simp add: run_snoc one_ticker_step)
qed

lemma one_ticker_sole: "one_ticker s \<Longrightarrow> sole_timer s"
  by (auto simp: one_ticker_def sole_timer_def split: option.splits)

lemma one_ticker_length:
  "one_ticker s \<Longrightarrow> length (intervals s) = (if isRunning s then 1 else 0)"
  by (auto simp: one_ticker_def split: option.splits)

lemma one_ticker_tick_interval:
  "one_ticker s \<Longrightarrow> time (tick_interval s) = time s + (if isRunning s then 10 else 0)"
  by (auto simp: one_ticker_def tick_interval_def fire_def tick_def split: option.splits)

lemma sole_timer_cleared:
  assumes "sole_timer s"
  shows "intervals (pauseStopwatch s) = []"
    and "intervals (resetStopwatch s) = []"
    and "intervals (unmount s) = []"
proof -
  have none: "intervals s = []" if "intervalRef s = None"
    using assms that by (cases "intervals s") (auto simp: sole_timer_def)
  have some: "removeAll h (intervals s) = []" if "intervalRef s = Some h" for h
    using assms that by (auto simp: sole_timer_def removeAll_filter_not_eq filter_empty_conv)
  show "intervals (pauseStopwatch s) = []"
    by (simp add: pauseStopwatch_def clearInterval_def Let_def none some split: option.splits)
  show "intervals (resetStopwatch s) = []"
    by (simp add: resetStopwatch_def clearInterval_def Let_def none some split: option.splits)
  show "intervals (unmount s) = []"
    by (simp add: unmount_def clearInterval_def none some split: option.splits)
qed

lemma no_interval_no_tick:
  "intervals s = [] \<Longrightarrow> run (map Tick hs) s = s"
  by (induction hs) (simp_all add: fire_def)

lemma handle_cancelled:
  assumes "intervalRef s = Some h"
  shows "h \<notin> set (intervals (pauseStopwatch s))"
    and "h \<notin> set (intervals (resetStopwatch s))"
    and "h \<notin> set (intervals (unmount s))"
  using assms
  by (simp_all add: pauseStopwatch_def resetStopwatch_def unmount_def clearInterval_def Let_def)

lemma cleared_iff_sole_timer:
  "intervals (pauseStopwatch s) = [] \<longleftrightarrow> sole_timer s"
  "intervals (resetStopwatch s) = [] \<longleftrightarrow> sole_timer s"
  "intervals (unmount s) = [] \<longleftrightarrow> sole_timer s"
proof -
  have "(case intervalRef s of Some h \<Rightarrow> removeAll h (intervals s) | None \<Rightarrow> intervals s) = []
      \<longleftrightarrow> sole_timer s"
    by (cases "intervalRef s")
      (auto simp: sole_timer_def removeAll_filter_not_eq filter_empty_conv)
  moreover have "intervals (pauseStopwatch s) =
      (case intervalRef s of Some h \<Rightarrow> removeAll h (intervals s) | None \<Rightarrow> intervals s)"
    by (simp add: pauseStopwatch_def clearInterval_def Let_def split: option.splits)
  moreover have "intervals (resetStopwatch s) =
      (case intervalRef s of Some h \<Rightarrow> removeAll h (intervals s) | None \<Rightarrow> intervals s)"
    by (simp add: resetStopwatch_def clearInterval_def Let_def split: option.splits)
  moreover have "intervals (unmount s) =
      (case intervalRef s of Some h \<Rightarrow> removeAll h (intervals s) | None \<Rightarrow> intervals s)"
    by (simp add: unmount_def clearInterval_def split: option.splits)
  ultimately show "intervals (pauseStopwatch s) = [] \<longleftrightarrow> sole_timer s"
    and "intervals (resetStopwatch s) = [] \<longleftrightarrow> sole_timer s"
    and "intervals (unmount s) = [] \<longleftrightarrow> sole_timer s"
    by simp_all
qed

lemma double_start:
  "run [Start, Start] initial =
     \<lparr>time = 0, isRunning = True, lapTimes = [], intervalRef = Some 2,
      intervals = [1, 2], nextHandle = 3\<rparr>"
  by (simp add: startStopwatch_def setInterval_def initial_def Let_def)

subsection \<open>Invariants of the laps and of the time\<close>

lemma countdown_Suc: "countdown (Suc n) = Suc n # countdown n"
  by (simp add: countdown_def)

lemma ids_step:
  assumes "map lap_id (lapTimes s) = countdown (length (lapTimes s))"
  shows "map lap_id (lapTimes (step e s)) = countdown (length (lapTimes (step e s)))"
  using assms by (simp add: lapTimes_step countdown_Suc) (simp add: countdown_def)

lemma ids_run:
  "map lap_id (lapTimes (run evs initial)) = countdown (length (lapTimes (run evs initial)))"
proof (induction evs rule: rev_induct)
  case Nil
  show ?case by (simp add: initial_def countdown_def)
next
  case (snoc e evs)
  then show ?case unfolding run_snoc by (rule ids_step)
qed

lemma time_nonneg_step: "0 \<le> time s \<Longrightarrow> 0 \<le> time (step e s)"
  by (simp add: time_step split: event.splits)

lemma time_nonneg_run: "0 \<le> time (run evs initial)"
proof (induction evs rule: rev_induct)
  case Nil
  show ?case by (simp add: initial_def)
next
  case (snoc e evs)
  then show ?case unfolding run_snoc by (rule time_nonneg_step)
qed

lemma laps_consistent_step: "laps_consistent s \<Longrightarrow> laps_consistent (step e s)"
  by (simp add: laps_consistent_def lapTimes_step)

lemma laps_consistent_run: "laps_consistent (run evs initial)"
proof (induction evs rule: rev_induct)
  case Nil
  show ?case by (simp add: initial_def laps_consistent_def)
next
  case (snoc e evs)
  then show ?case unfolding run_snoc by (rule laps_consistent_step)
qed

section \<open>The claims\<close>

subsection \<open>C1: starting a running stopwatch\<close>

text \<open>
  As stated, C1 says that \<open>start()\<close> on a running stopwatch is a no-op. \<open>startStopwatch\<close>
  has no test of \<open>isRunning\<close>: called on the running state that one start produces, it
  registers a second interval beside the first and one period of 10 ms then advances
  the time by 20.
\<close>

theorem start_while_running_adds_ticker:
  "isRunning (startStopwatch initial) \<and>
   startStopwatch (startStopwatch initial) \<noteq> startStopwatch initial \<and>
   intervals (startStopwatch initial) = [1] \<and>
   intervals (startStopwatch (startStopwatch initial)) = [1, 2] \<and>
   time (tick_interval (startStopwatch (startStopwatch initial))) =
     time (startStopwatch (startStopwatch initial)) + 20"
  by (simp add: startStopwatch_def setInterval_def initial_def tick_interval_def fire_def
      tick_def Let_def)

text \<open>
  Claim C1, amended. The guard is in \<open>handleStartPause\<close>, the only caller of
  \<open>startStopwatch\<close>: it starts the stopwatch only when it is not running and pauses it
  otherwise. In every state reached from the initial state by toggle, pause, tick,
  record_lap and reset there is exactly one registered interval while the stopwatch runs
  and none while it does not, so one period of 10 ms advances the time by exactly 10
  while running and by nothing otherwise; a toggle of a running stopwatch is a pause and
  leaves no interval, and a start of a stopwatch that is not running leaves exactly one.
\<close>

theorem toggle_keeps_one_ticker:
  assumes "Start \<notin> set evs"
  shows "length (intervals (run evs initial)) = (if isRunning (run evs initial) then 1 else 0) \<and>
    time (tick_interval (run evs initial)) =
      time (run evs initial) + (if isRunning (run evs initial) then 10 else 0) \<and>
    (isRunning (run evs initial) \<longrightarrow>
      handleStartPause (run evs initial) = pauseStopwatch (run evs initial) \<and>
      intervals (handleStartPause (run evs initial)) = []) \<and>
    (\<not> isRunning (run evs initial) \<longrightarrow>
      handleStartPause (run evs initial) = startStopwatch (run evs initial) \<and>
      length (intervals (startStopwatch (run evs initial))) = 1)"
proof -
  let ?s = "run evs initial"
  have inv: "one_ticker ?s"
    using assms by (rule one_ticker_run)
  have toggled: "one_ticker (handleStartPause ?s)"
    using one_ticker_step [OF inv, of Toggle] by simp
  have "intervals (handleStartPause ?s) = []" if "isRunning ?s"
    using that sole_timer_cleared(1) [OF one_ticker_sole [OF inv]]
    by (simp add: handleStartPause_def handleStartPause_of_def)
  moreover have "length (intervals (startStopwatch ?s)) = 1" if "\<not> isRunning ?s"
    using that one_ticker_length [OF toggled]
    by (simp add: handleStartPause_def handleStartPause_of_def startStopwatch_def
        setInterval_def Let_def)
  ultimately show ?thesis
    using one_ticker_length [OF inv] one_ticker_tick_interval [OF inv]
    by (simp add: handleStartPause_def handleStartPause_of_def)
qed

theorem toggle_keeps_one_ticker_witness:
  "Start \<notin> set [Toggle, Tick 1, Toggle, Toggle, Tick 2] \<and>
   isRunning (run [Toggle, Tick 1, Toggle, Toggle, Tick 2] initial) \<and>
   length (intervals (run [Toggle, Tick 1, Toggle, Toggle, Tick 2] initial)) = 1 \<and>
   time (run [Toggle, Tick 1, Toggle, Toggle, Tick 2] initial) = 20 \<and>
   time (tick_interval (run [Toggle, Tick 1, Toggle, Toggle, Tick 2] initial)) = 30 \<and>
   intervals (handleStartPause (run [Toggle, Tick 1, Toggle, Toggle, Tick 2] initial)) = [] \<and>
   Start \<notin> set [Toggle, Tick 1, Toggle] \<and>
   \<not> isRunning (run [Toggle, Tick 1, Toggle] initial) \<and>
   length (intervals (run [Toggle, Tick 1, Toggle] initial)) = 0 \<and>
   length (intervals (startStopwatch (run [Toggle, Tick 1, Toggle] initial))) = 1"
proof -
  let ?evs = "[Toggle, Tick 1, Toggle, Toggle, Tick 2]"
  have h: "Start \<notin> set ?evs"
    by simp
  have ev: "run ?evs initial =
      \<lparr>time = 20, isRunning = True, lapTimes = [], intervalRef = Some 2,
       intervals = [2], nextHandle = 3\<rparr>"
    by (simp add: handler_defs initial_def Let_def)
  have r: "isRunning (run ?evs initial)" and t: "time (run ?evs initial) = 20"
    unfolding ev by simp_all
  note one = toggle_keeps_one_ticker [OF h]
  from one r have c1: "length (intervals (run ?evs initial)) = 1"
    by (simp del: run.simps)
  from one r t have c2: "time (tick_interval (run ?evs initial)) = 30"
    by (simp del: run.simps)
  from one r have c3: "intervals (handleStartPause (run ?evs initial)) = []"
    by blast
  let ?paused = "[Toggle, Tick 1, Toggle]"
  have h': "Start \<notin> set ?paused"
    by simp
  have ev': "run ?paused initial =
      \<lparr>time = 10, isRunning = False, lapTimes = [], intervalRef = None,
       intervals = [], nextHandle = 2\<rparr>"
    by (simp add: handler_defs initial_def Let_def)
  have r': "\<not> isRunning (run ?paused initial)"
    unfolding ev' by simp
  note off = toggle_keeps_one_ticker [OF h']
  from off r' have c4: "length (intervals (run ?paused initial)) = 0"
    by (simp del: run.simps)
  from off r' have c5: "length (intervals (startStopwatch (run ?paused initial))) = 1"
    by blast
  from h r c1 t c2 c3 h' r' c4 c5 show ?thesis
    by blast
qed

subsection \<open>C2: recording a lap\<close>

text \<open>
  Claim C2. In every state whose time is positive, \<open>recordLap\<close> puts exactly one new
  record in front of the laps: its sequence number is the number of laps there were plus
  one, its text is \<open>formatTime\<close> of the current time and its captured time is the current
  time. The laps there were follow it unchanged and in order, and nothing else in the
  state changes.
\<close>

theorem recordLap_prepends:
  assumes "0 < time s"
  shows "recordLap s =
      s\<lparr>lapTimes :=
          \<lparr>lap_id = length (lapTimes s) + 1, lap_time = formatTime (time s),
           totalTime = time s\<rparr> # lapTimes s\<rparr> \<and>
    lapTimes (recordLap s) =
      \<lparr>lap_id = length (lapTimes s) + 1, lap_time = formatTime (time s),
       totalTime = time s\<rparr> # lapTimes s \<and>
    length (lapTimes (recordLap s)) = length (lapTimes s) + 1 \<and>
    tl (lapTimes (recordLap s)) = lapTimes s"
  using assms by (simp add: recordLap_def recordLap_of_def Let_def)

theorem recordLap_prepends_witness:
  "0 < time (run [Toggle, Tick 1, RecordLap, Tick 1] initial) \<and>
   lapTimes (recordLap (run [Toggle, Tick 1, RecordLap, Tick 1] initial)) =
     [\<lparr>lap_id = 2, lap_time = ''00:00:02'', totalTime = 20\<rparr>,
      \<lparr>lap_id = 1, lap_time = ''00:00:01'', totalTime = 10\<rparr>]"
proof -
  let ?s = "run [Toggle, Tick 1, RecordLap, Tick 1] initial"
  have f10: "formatTime 10 = ''00:00:01''"
    by (simp add: formatTime_fields padStart_def toString_nat.simps digit_char_def)
  have f20: "formatTime 20 = ''00:00:02''"
    by (simp add: formatTime_fields padStart_def toString_nat.simps digit_char_def)
  have ev: "?s =
      \<lparr>time = 20, isRunning = True,
       lapTimes = [\<lparr>lap_id = 1, lap_time = ''00:00:01'', totalTime = 10\<rparr>],
       intervalRef = Some 1, intervals = [1], nextHandle = 2\<rparr>"
    by (simp add: handler_defs initial_def Let_def f10)
  have h: "0 < time ?s"
    unfolding ev by simp
  have "lapTimes (recordLap ?s) =
      \<lparr>lap_id = length (lapTimes ?s) + 1, lap_time = formatTime (time ?s),
       totalTime = time ?s\<rparr> # lapTimes ?s"
    using recordLap_prepends [OF h] by blast
  then have "lapTimes (recordLap ?s) =
     [\<lparr>lap_id = 2, lap_time = ''00:00:02'', totalTime = 20\<rparr>,
      \<lparr>lap_id = 1, lap_time = ''00:00:01'', totalTime = 10\<rparr>]"
    unfolding ev by (simp add: f20)
  with h show ?thesis
    by blast
qed

subsection \<open>C4: reset\<close>

text \<open>
  As stated, C4 says that after \<open>reset()\<close> no periodic callback is active, in every state.
  \<open>resetStopwatch\<close> clears the interval whose handle the ref holds and no other. After
  two starts in a row the ref holds the second handle; the reset leaves the first
  interval registered, and one period of 10 ms takes the time from 0 to 10.
\<close>

theorem reset_leaves_overwritten_interval:
  "intervals (run [Start, Start] initial) = [1, 2] \<and>
   intervalRef (run [Start, Start] initial) = Some 2 \<and>
   intervals (resetStopwatch (run [Start, Start] initial)) = [1] \<and>
   time (resetStopwatch (run [Start, Start] initial)) = 0 \<and>
   time (tick_interval (resetStopwatch (run [Start, Start] initial))) = 10"
  unfolding double_start
  by (simp add: resetStopwatch_def clearInterval_def tick_interval_def fire_def tick_def Let_def)

text \<open>
  Claim C4, amended. From every state, \<open>resetStopwatch\<close> gives a state that is not
  running, whose time is 0, whose laps are empty and whose ref is cleared, and the
  interval the ref held, if any, is no longer registered. No interval at all is left
  exactly when the ref held every registered interval, as it does in every state reached
  from the initial state by toggle, pause, tick, record_lap and reset.
\<close>

theorem resetStopwatch_clears:
  "isRunning (resetStopwatch s) = False \<and>
   time (resetStopwatch s) = 0 \<and>
   lapTimes (resetStopwatch s) = [] \<and>
   intervalRef (resetStopwatch s) = None \<and>
   (\<forall>h. intervalRef s = Some h \<longrightarrow> h \<notin> set (intervals (resetStopwatch s))) \<and>
   (sole_timer s \<longrightarrow> intervals (resetStopwatch s) = []) \<and>
   (intervals (resetStopwatch s) = [] \<longrightarrow> sole_timer s) \<and>
   (Start \<notin> set evs \<longrightarrow> intervals (resetStopwatch (run evs initial)) = [])"
proof -
  have "isRunning (resetStopwatch s) = False \<and> time (resetStopwatch s) = 0 \<and>
      lapTimes (resetStopwatch s) = [] \<and> intervalRef (resetStopwatch s) = None"
    by (simp add: resetStopwatch_def clearInterval_def Let_def split: option.splits)
  moreover have "intervals (resetStopwatch (run evs initial)) = []" if "Start \<notin> set evs"
    using that by (intro sole_timer_cleared(2) one_ticker_sole one_ticker_run)
  ultimately show ?thesis
    using handle_cancelled(2) [of s] cleared_iff_sole_timer(2) [of s] by blast
qed

theorem resetStopwatch_clears_witness:
  "intervalRef (run [Toggle, Tick 1, RecordLap] initial) = Some 1 \<and>
   sole_timer (run [Toggle, Tick 1, RecordLap] initial) \<and>
   Start \<notin> set [Toggle, Tick 1, RecordLap] \<and>
   1 \<notin> set (intervals (resetStopwatch (run [Toggle, Tick 1, RecordLap] initial))) \<and>
   intervals (resetStopwatch (run [Toggle, Tick 1, RecordLap] initial)) = [] \<and>
   time (resetStopwatch (run [Toggle, Tick 1, RecordLap] initial)) = 0 \<and>
   lapTimes (resetStopwatch (run [Toggle, Tick 1, RecordLap] initial)) = []"
proof -
  let ?evs = "[Toggle, Tick 1, RecordLap]"
  have ev: "run ?evs initial =
      \<lparr>time = 10, isRunning = True,
       lapTimes = [\<lparr>lap_id = 1, lap_time = formatTime 10, totalTime = 10\<rparr>],
       intervalRef = Some 1, intervals = [1], nextHandle = 2\<rparr>"
    by (simp add: handler_defs initial_def Let_def)
  have r: "intervalRef (run ?evs initial) = Some 1"
    unfolding ev by simp
  have o: "sole_timer (run ?evs initial)"
    unfolding ev by (simp add: sole_timer_def)
  have h: "Start \<notin> set ?evs"
    by simp
  from resetStopwatch_clears [of "run ?evs initial" ?evs] r o h show ?thesis
    by blast
qed

subsection \<open>C5: no lap at time zero\<close>

text \<open>
  Claim C5. In every state whose time is exactly 0, \<open>recordLap\<close> returns the state as it
  is: the laps and every other field are unchanged. The handler has no failing branch.
\<close>

theorem recordLap_at_zero:
  assumes "time s = 0"
  shows "recordLap s = s"
  using assms by (simp add: recordLap_def recordLap_of_def)

theorem recordLap_at_zero_witness:
  "time initial = 0 \<and> recordLap initial = initial \<and> lapTimes (recordLap initial) = []"
proof -
  have h: "time initial = 0"
    by (simp add: initial_def)
  have "lapTimes initial = []"
    by (simp add: initial_def)
  with h recordLap_at_zero [OF h] show ?thesis
    by simp
qed

subsection \<open>C6: the interval is cancelled on pause, reset and unmount\<close>

text \<open>
  As stated, C6 says that after pause, reset and unmount no tick changes the time any
  more. Each of the three clears the interval whose handle the ref holds and no other.
  After two starts in a row the first interval stays registered through each of them,
  and three firings of it add 30 to the time.
\<close>

theorem exit_leaves_overwritten_interval:
  "intervals (pauseStopwatch (run [Start, Start] initial)) = [1] \<and>
   intervals (resetStopwatch (run [Start, Start] initial)) = [1] \<and>
   intervals (unmount (run [Start, Start] initial)) = [1] \<and>
   time (run (map Tick [1, 1, 1]) (pauseStopwatch (run [Start, Start] initial))) =
     time (pauseStopwatch (run [Start, Start] initial)) + 30 \<and>
   time (run (map Tick [1, 1, 1]) (resetStopwatch (run [Start, Start] initial))) =
     time (resetStopwatch (run [Start, Start] initial)) + 30 \<and>
   time (run (map Tick [1, 1, 1]) (unmount (run [Start, Start] initial))) =
     time (unmount (run [Start, Start] initial)) + 30"
  unfolding double_start
  by (simp add: pauseStopwatch_def resetStopwatch_def unmount_def clearInterval_def fire_def
      tick_def Let_def)

text \<open>
  Claim C6, amended. After \<open>pauseStopwatch\<close>, after \<open>resetStopwatch\<close> and after the
  cleanup of the unmount, the interval whose handle the ref held is no longer registered.
  No interval is left, for each of the three, exactly when the ref held every registered
  interval; then whatever the host fires afterwards, the state (and with it the time)
  stays as it is, and pause and reset have cleared the ref. Every state reached from the
  initial state by toggle, pause, tick, record_lap and reset is such a state.
\<close>

theorem timer_cancelled_on_exit:
  "(sole_timer s \<longrightarrow>
      intervals (pauseStopwatch s) = [] \<and> intervalRef (pauseStopwatch s) = None \<and>
      run (map Tick hs) (pauseStopwatch s) = pauseStopwatch s \<and>
      intervals (resetStopwatch s) = [] \<and> intervalRef (resetStopwatch s) = None \<and>
      run (map Tick hs) (resetStopwatch s) = resetStopwatch s \<and>
      intervals (unmount s) = [] \<and>
      run (map Tick hs) (unmount s) = unmount s) \<and>
   (\<forall>h. intervalRef s = Some h \<longrightarrow>
      h \<notin> set (intervals (pauseStopwatch s)) \<and>
      h \<notin> set (intervals (resetStopwatch s)) \<and>
      h \<notin> set (intervals (unmount s))) \<and>
   (intervals (pauseStopwatch s) = [] \<longrightarrow> sole_timer s) \<and>
   (intervals (resetStopwatch s) = [] \<longrightarrow> sole_timer s) \<and>
   (intervals (unmount s) = [] \<longrightarrow> sole_timer s) \<and>
   (Start \<notin> set evs \<longrightarrow> sole_timer (run evs initial))"
proof -
  have refs: "intervalRef (pauseStopwatch s) = None \<and> intervalRef (resetStopwatch s) = None"
    by (simp add: pauseStopwatch_def resetStopwatch_def clearInterval_def Let_def
        split: option.splits)
  have "sole_timer (run evs initial)" if "Start \<notin> set evs"
    using that by (intro one_ticker_sole one_ticker_run)
  then show ?thesis
    using refs sole_timer_cleared [of s] handle_cancelled [of s] cleared_iff_sole_timer [of s]
      no_interval_no_tick [of "pauseStopwatch s" hs]
      no_interval_no_tick [of "resetStopwatch s" hs]
      no_interval_no_tick [of "unmount s" hs]
    by blast
qed

theorem timer_cancelled_on_exit_witness:
  "Start \<notin> set [Toggle, Tick 1] \<and>
   sole_timer (run [Toggle, Tick 1] initial) \<and>
   intervalRef (run [Toggle, Tick 1] initial) = Some 1 \<and>
   intervals (run [Toggle, Tick 1] initial) = [1] \<and>
   intervals (pauseStopwatch (run [Toggle, Tick 1] initial)) = [] \<and>
   intervals (resetStopwatch (run [Toggle, Tick 1] initial)) = [] \<and>
   intervals (unmount (run [Toggle, Tick 1] initial)) = [] \<and>
   run (map Tick [1, 1, 2]) (pauseStopwatch (run [Toggle, Tick 1] initial)) =
     pauseStopwatch (run [Toggle, Tick 1] initial) \<and>
   run (map Tick [1, 1, 2]) (unmount (run [Toggle, Tick 1] initial)) =
     unmount (run [Toggle, Tick 1] initial) \<and>
   1 \<notin> set (intervals (unmount (run [Toggle, Tick 1] initial)))"
proof -
  let ?evs = "[Toggle, Tick 1]"
  have ev: "run ?evs initial =
      \<lparr>time = 10, isRunning = True, lapTimes = [], intervalRef = Some 1,
       intervals = [1], nextHandle = 2\<rparr>"
    by (simp add: handler_defs initial_def Let_def)
  have h: "Start \<notin> set ?evs"
    by simp
  have r: "intervalRef (run ?evs initial) = Some 1" and i: "intervals (run ?evs initial) = [1]"
    unfolding ev by simp_all
  from timer_cancelled_on_exit [of "run ?evs initial" "[1, 1, 2]" ?evs] h r i show ?thesis
    by blast
qed

subsection \<open>C7: sequence numbers\<close>

text \<open>
  Claim C7. In every state reached from the initial state by start, pause, toggle, tick,
  record_lap and reset, the sequence numbers of the laps read front to back are
  \<open>n, n - 1, \<dots>, 1\<close>, where \<open>n\<close> is the number of laps: in capture order they are
  \<open>1, \<dots>, n\<close>, strictly increasing from 1.
\<close>

theorem lap_ids_count_down:
  "map lap_id (lapTimes (run evs initial)) = countdown (length (lapTimes (run evs initial))) \<and>
   map lap_id (rev (lapTimes (run evs initial))) =
     [1..<Suc (length (lapTimes (run evs initial)))] \<and>
   sorted_wrt (<) (map lap_id (rev (lapTimes (run evs initial))))"
proof -
  have ids: "map lap_id (lapTimes (run evs initial)) =
      countdown (length (lapTimes (run evs initial)))"
    by (rule ids_run)
  have "map lap_id (rev (lapTimes (run evs initial))) =
      rev (map lap_id (lapTimes (run evs initial)))"
    by (simp add: rev_map)
  also have "\<dots> = rev (countdown (length (lapTimes (run evs initial))))"
    by (simp only: ids)
  also have "\<dots> = [1..<Suc (length (lapTimes (run evs initial)))]"
    by (simp only: countdown_def rev_rev_ident)
  finally have "map lap_id (rev (lapTimes (run evs initial))) =
      [1..<Suc (length (lapTimes (run evs initial)))]" .
  moreover from this
  have "sorted_wrt (<) (map lap_id (rev (lapTimes (run evs initial))))"
    by (simp only: sorted_wrt_upt)
  ultimately show ?thesis
    using ids by blast
qed

theorem lap_ids_count_down_witness:
  "map lap_id (lapTimes (run [Toggle, Tick 1, RecordLap, Tick 1, RecordLap] initial)) = [2, 1]"
proof -
  let ?evs = "[Toggle, Tick 1, RecordLap, Tick 1, RecordLap]"
  have "length (lapTimes (run ?evs initial)) = 2"
    by (simp add: handler_defs initial_def Let_def)
  moreover have "countdown 2 = [2, 1]"
    by (simp add: countdown_def upt_rec)
  ultimately show ?thesis
    using lap_ids_count_down [of ?evs] by (simp del: run.simps)
qed

subsection \<open>C8: the time is never negative and only a reset takes it back to zero\<close>

text \<open>
  Claim C8. The time is never negative in a state reached from the initial state. Each
  firing of a registered interval adds exactly 10 to it; no operation other than reset
  lowers it, and from a reachable state whose time is not 0 no operation other than
  reset gives a state whose time is 0.
\<close>

theorem elapsed_time_nonneg_monotone:
  "0 \<le> time (run evs initial) \<and>
   (h \<in> set (intervals s) \<longrightarrow> time (fire h s) = time s + 10) \<and>
   (e \<noteq> Reset \<longrightarrow> time s \<le> time (step e s)) \<and>
   (e \<noteq> Reset \<and> time (run evs initial) \<noteq> 0 \<longrightarrow> time (step e (run evs initial)) \<noteq> 0)"
proof -
  have nonneg: "0 \<le> time (run evs initial)"
    by (rule time_nonneg_run)
  have tick: "time (fire h s) = time s + 10" if "h \<in> set (intervals s)"
    using that by (simp add: fire_def tick_def)
  have mono: "time s \<le> time (step e s)" if "e \<noteq> Reset"
    using that by (simp add: time_step split: event.splits)
  have "time (step e (run evs initial)) \<noteq> 0" if "e \<noteq> Reset" and "time (run evs initial) \<noteq> 0"
    using that nonneg by (simp add: time_step split: event.splits)
  with nonneg tick mono show ?thesis
    by blast
qed

theorem elapsed_time_nonneg_monotone_witness:
  "1 \<in> set (intervals (run [Toggle, Tick 1] initial)) \<and>
   time (run [Toggle, Tick 1] initial) = 10 \<and>
   time (fire 1 (run [Toggle, Tick 1] initial)) = 20 \<and>
   Toggle \<noteq> Reset \<and>
   time (run [Toggle, Tick 1] initial) \<le> time (step Toggle (run [Toggle, Tick 1] initial)) \<and>
   time (step Toggle (run [Toggle, Tick 1] initial)) \<noteq> 0 \<and>
   time (step Reset (run [Toggle, Tick 1] initial)) = 0"
proof -
  let ?evs = "[Toggle, Tick 1]"
  have ev: "run ?evs initial =
      \<lparr>time = 10, isRunning = True, lapTimes = [], intervalRef = Some 1,
       intervals = [1], nextHandle = 2\<rparr>"
    by (simp add: handler_defs initial_def Let_def)
  have i: "1 \<in> set (intervals (run ?evs initial))" and t: "time (run ?evs initial) = 10"
    unfolding ev by simp_all
  have z: "time (step Reset (run ?evs initial)) = 0"
    unfolding ev by (simp add: resetStopwatch_def clearInterval_def Let_def)
  note mono = elapsed_time_nonneg_monotone [of ?evs 1 "run ?evs initial" Toggle]
  from mono i t have f: "time (fire 1 (run ?evs initial)) = 20"
    by (simp del: run.simps)
  from mono have m: "time (run ?evs initial) \<le> time (step Toggle (run ?evs initial))"
    by blast
  from mono t have p: "time (step Toggle (run ?evs initial)) \<noteq> 0"
    by (simp del: run.simps step.simps)
  from i t f m p z show ?thesis
    by blast
qed

subsection \<open>C9: laps show the formatted capture time\<close>

text \<open>
  Claim C9. Every lap in a state reached from the initial state has as its text
  \<open>formatTime\<close> of its captured time, and every operation (start, pause, toggle, tick,
  record_lap, reset) preserves this. \<open>formatTime\<close> is the function of the time display:
  the text of a lap just recorded is what the display shows at that moment.
\<close>

theorem laps_formatted_consistently:
  "laps_consistent (run evs initial) \<and>
   (laps_consistent s \<longrightarrow> laps_consistent (step e s)) \<and>
   (0 < time s \<longrightarrow>
      lap_time (hd (lapTimes (recordLap s))) = display s \<and>
      totalTime (hd (lapTimes (recordLap s))) = time s)"
proof -
  have "lap_time (hd (lapTimes (recordLap s))) = display s \<and>
      totalTime (hd (lapTimes (recordLap s))) = time s" if "0 < time s"
    using that by (simp add: recordLap_def recordLap_of_def display_def Let_def)
  then show ?thesis
    using laps_consistent_run [of evs] laps_consistent_step [of s e] by blast
qed

theorem laps_formatted_consistently_witness:
  "laps_consistent (run [Toggle, Tick 1, RecordLap] initial) \<and>
   lapTimes (run [Toggle, Tick 1, RecordLap] initial) =
     [\<lparr>lap_id = 1, lap_time = ''00:00:01'', totalTime = 10\<rparr>] \<and>
   0 < time (run [Toggle, Tick 1, RecordLap] initial) \<and>
   laps_consistent (step RecordLap (run [Toggle, Tick 1, RecordLap] initial)) \<and>
   lap_time (hd (lapTimes (recordLap (run [Toggle, Tick 1, RecordLap] initial)))) =
     display (run [Toggle, Tick 1, RecordLap] initial)"
proof -
  let ?evs = "[Toggle, Tick 1, RecordLap]"
  have f10: "formatTime 10 = ''00:00:01''"
    by (simp add: formatTime_fields padStart_def toString_nat.simps digit_char_def)
  have ev: "run ?evs initial =
      \<lparr>time = 10, isRunning = True,
       lapTimes = [\<lparr>lap_id = 1, lap_time = ''00:00:01'', totalTime = 10\<rparr>],
       intervalRef = Some 1, intervals = [1], nextHandle = 2\<rparr>"
    by (simp add: handler_defs initial_def Let_def f10)
  have l: "lapTimes (run ?evs initial) =
      [\<lparr>lap_id = 1, lap_time = ''00:00:01'', totalTime = 10\<rparr>]"
    and t: "0 < time (run ?evs initial)"
    unfolding ev by simp_all
  from laps_formatted_consistently [of ?evs "run ?evs initial" RecordLap] l t show ?thesis
    by blast
qed

subsection \<open>C10: what the handlers leave alone\<close>

text \<open>
  Claim C10. \<open>startStopwatch\<close>, \<open>pauseStopwatch\<close>, \<open>handleStartPause\<close> and \<open>recordLap\<close>
  leave the time unchanged, and the first three leave the laps unchanged. A step that
  changes the time is the firing of a registered interval, which adds 10, or a reset,
  which sets it to 0.
\<close>

theorem handlers_frame:
  "time (startStopwatch s) = time s \<and>
   time (pauseStopwatch s) = time s \<and>
   time (handleStartPause s) = time s \<and>
   time (recordLap s) = time s \<and>
   lapTimes (startStopwatch s) = lapTimes s \<and>
   lapTimes (pauseStopwatch s) = lapTimes s \<and>
   lapTimes (handleStartPause s) = lapTimes s \<and>
   time (resetStopwatch s) = 0 \<and>
   time (fire h s) = (if h \<in> set (intervals s) then time s + 10 else time s) \<and>
   (time (step e s) \<noteq> time s \<longrightarrow>
      (\<exists>k. e = Tick k \<and> k \<in> set (intervals s) \<and> time (step e s) = time s + 10) \<or>
      (e = Reset \<and> time (step e s) = 0))"
proof -
  have t: "time (startStopwatch s) = time s \<and> time (pauseStopwatch s) = time s \<and>
      time (handleStartPause s) = time s \<and> time (recordLap s) = time s"
    using time_step [of Start s] time_step [of Pause s] time_step [of Toggle s]
      time_step [of RecordLap s] by simp
  have l: "lapTimes (startStopwatch s) = lapTimes s \<and> lapTimes (pauseStopwatch s) = lapTimes s \<and>
      lapTimes (handleStartPause s) = lapTimes s"
    using lapTimes_step [of Start s] lapTimes_step [of Pause s] lapTimes_step [of Toggle s]
    by simp
  have r: "time (resetStopwatch s) = 0"
    using time_step [of Reset s] by simp
  have f: "time (fire h s) = (if h \<in> set (intervals s) then time s + 10 else time s)"
    using time_step [of "Tick h" s] by simp
  have "(\<exists>k. e = Tick k \<and> k \<in> set (intervals s) \<and> time (step e s) = time s + 10) \<or>
      (e = Reset \<and> time (step e s) = 0)" if "time (step e s) \<noteq> time s"
    using that t r by (cases e) (auto simp: fire_def tick_def split: if_splits)
  with t l r f show ?thesis
    by blast
qed

theorem handlers_frame_witness:
  "time (step (Tick 1) (startStopwatch initial)) \<noteq> time (startStopwatch initial) \<and>
   1 \<in> set (intervals (startStopwatch initial)) \<and>
   time (step (Tick 1) (startStopwatch initial)) = time (startStopwatch initial) + 10 \<and>
   time (startStopwatch initial) = time initial \<and>
   lapTimes (startStopwatch initial) = lapTimes initial"
proof -
  have ev: "startStopwatch initial =
      \<lparr>time = 0, isRunning = True, lapTimes = [], intervalRef = Some 1,
       intervals = [1], nextHandle = 2\<rparr>"
    by (simp add: handler_defs initial_def Let_def)
  have i: "1 \<in> set (intervals (startStopwatch initial))"
    unfolding ev by simp
  have n: "time (step (Tick 1) (startStopwatch initial)) \<noteq> time (startStopwatch initial)"
    unfolding ev by (simp add: fire_def tick_def)
  note frame = handlers_frame [of initial 1 "Tick 1"]
    handlers_frame [of "startStopwatch initial" 1 "Tick 1"]
  from frame(2) n
  have "time (step (Tick 1) (startStopwatch initial)) = time (startStopwatch initial) + 10"
    by blast
  with frame(1) i n show ?thesis
    by blast
qed

end
